theory Spec2Isabelle
  imports Main "HOL-Library.Word"
begin

section \<open>The WebSocket session of bcos-boostssl (WsSession.cpp)\<close>

text \<open>
  The session owns one transport stream, a queue of encoded outbound buffers and a
  registry of response callbacks keyed by sequence identifier. Every member function of
  WsSession.cpp is a function on the session state. What the session does to its
  collaborators is recorded in the state as well: the calls that reach the transport
  stream (\<open>wire\<close>), the tasks handed to the thread pool (\<open>pool\<close>), the timers armed with
  \<open>async_wait\<close> (\<open>timers\<close>) and the reason logged by each call of drop (\<open>dropLog\<close>).
\<close>

subsection \<open>Data\<close>

type_synonym bytes = "8 word list"

text \<open>
  Modelled from the spec: the class WsMessage is declared outside WsSession.cpp. A message
  has a sequence identifier and a body; its codec (\<open>encode\<close>, \<open>decode\<close>) is a parameter
  of the functions that call it.
\<close>

record WsMessage =
  seq :: string
  payload :: bytes

text \<open>The reasons of WsError.h that WsSession.cpp names.\<close>

datatype WsError =
  AcceptError | ReadError | WriteError | PingError | PongError | PacketError | TimeOut

record Options =
  timeout :: int

text \<open>
  A response handler (a \<open>std::function\<close>) is known by its identity. The callback record
  holds the handler and, when one was created, the deadline timer with its delay in
  milliseconds.
\<close>

type_synonym RespCallBack = nat

record CallBack =
  respCallBack :: RespCallBack
  timer :: "int option"

datatype stream = WsStream

datatype transport_op = OpRead | OpWrite bytes | OpClose | OpPing | OpPong

text \<open>
  A task is the closure given to \<open>m_threadPool->enqueue\<close>, with the values it captures.
  The two closures of drop and onReadPacket also capture a weak pointer to the session;
  the closure of onRespTimeout captures the callback and the error only.
\<close>

datatype task =
  DisconnectTask
  | ReadTask WsMessage "CallBack option"
  | TimeoutTask CallBack WsError

text \<open>
  What running a task, or a start-up function, calls: a handler, or \<open>cancel\<close> on a
  timer. \<open>CallResp h e m b\<close> is the call \<open>respCallBack(e, m, session)\<close> of handler \<open>h\<close>,
  where \<open>b\<close> tells whether the session argument is the session or \<open>nullptr\<close>.
\<close>

datatype action =
  CallConnect
  | CallDisconnect
  | CallRecv WsMessage
  | CancelTimer int
  | CallResp RespCallBack "WsError option" "WsMessage option" bool

text \<open>
  Undefined behaviour of the C++ code: a member call through the null \<open>m_stream\<close>, and
  \<open>erase(begin())\<close> or \<open>front()\<close> on the empty queue.
\<close>

datatype fault = NullStreamDeref | EmptyQueueAccess

record session =
  m_isDrop :: bool
  m_stream :: "stream option"
  m_buffer :: bytes
  m_queue :: "bytes list"
  m_callbacks :: "string \<rightharpoonup> CallBack"
  m_sendMsgTimeout :: int
  m_connectHandler :: bool
  wire :: "transport_op list"
  inflight_w :: nat
  pool :: "task list"
  timers :: "(string \<times> int) list"
  dropLog :: "WsError list"
  calls :: "action list"

subsection \<open>Teardown and control frames\<close>

definition disconnect :: "session \<Rightarrow> session" where
  "disconnect s =
     (case m_stream s of
        None \<Rightarrow> s
      | Some st \<Rightarrow> s\<lparr>m_stream := None, wire := wire s @ [OpClose]\<rparr>)"

definition drop_ws :: "WsError \<Rightarrow> session \<Rightarrow> session" where
  "drop_ws reason s =
     (let s1 = disconnect (s\<lparr>m_isDrop := True, dropLog := dropLog s @ [reason]\<rparr>)
      in s1\<lparr>pool := pool s1 @ [DisconnectTask]\<rparr>)"

text \<open>
  The flag \<open>thr\<close> of a function that calls the transport tells whether that call throws
  a \<open>std::exception\<close>; the flag \<open>ec\<close> of a completion handler tells whether the
  error code is set.
\<close>

definition ping :: "bool \<Rightarrow> session \<Rightarrow> session" where
  "ping thr s =
     (case m_stream s of
        None \<Rightarrow> s
      | Some st \<Rightarrow> if thr then drop_ws PingError s else s\<lparr>wire := wire s @ [OpPing]\<rparr>)"

definition pong :: "bool \<Rightarrow> session \<Rightarrow> session" where
  "pong thr s =
     (case m_stream s of
        None \<Rightarrow> s
      | Some st \<Rightarrow> if thr then drop_ws PongError s else s\<lparr>wire := wire s @ [OpPong]\<rparr>)"

subsection \<open>Callback registry\<close>

definition addRespCallback :: "string \<Rightarrow> CallBack \<Rightarrow> session \<Rightarrow> session" where
  "addRespCallback sq cb s = s\<lparr>m_callbacks := (m_callbacks s)(sq \<mapsto> cb)\<rparr>"

definition getAndRemoveRespCallback ::
  "string \<Rightarrow> bool \<Rightarrow> session \<Rightarrow> CallBack option \<times> session" where
  "getAndRemoveRespCallback sq rm s =
     (case m_callbacks s sq of
        None \<Rightarrow> (None, s)
      | Some cb \<Rightarrow>
          (Some cb, if rm then s\<lparr>m_callbacks := (m_callbacks s)(sq := None)\<rparr> else s))"

text \<open>
  Modelled from the spec: the default of the parameter \<open>_remove\<close> is declared in
  WsSession.h; the spec's takeAndRemove erases the entry, so the default is true.
\<close>

definition remove_default :: bool where
  "remove_default = True"

definition onRespTimeout :: "bool \<Rightarrow> string \<Rightarrow> session \<Rightarrow> session" where
  "onRespTimeout err sq s =
     (if err then s
      else case getAndRemoveRespCallback sq remove_default s of
             (None, s1) \<Rightarrow> s1
           | (Some cb, s1) \<Rightarrow> s1\<lparr>pool := pool s1 @ [TimeoutTask cb TimeOut]\<rparr>)"

text \<open>
  The handler given to \<open>async_wait\<close> in asyncSendMessage: \<open>alive\<close> is whether the weak
  pointer it captured still locks.
\<close>

definition timerHandler :: "bool \<Rightarrow> bool \<Rightarrow> string \<Rightarrow> session \<Rightarrow> session" where
  "timerHandler alive err sq s = (if alive then onRespTimeout err sq s else s)"

subsection \<open>Read pipeline\<close>

definition onReadPacket :: "(bytes \<Rightarrow> int \<times> WsMessage) \<Rightarrow> session \<Rightarrow> session" where
  "onReadPacket dec s =
     (case dec (m_buffer s) of (status, message) \<Rightarrow>
        if status < 0 then drop_ws PacketError s
        else case getAndRemoveRespCallback (seq message) remove_default (s\<lparr>m_buffer := []\<rparr>) of
               (callback, s1) \<Rightarrow> s1\<lparr>pool := pool s1 @ [ReadTask message callback]\<rparr>)"

definition asyncRead :: "bool \<Rightarrow> session \<Rightarrow> fault + session" where
  "asyncRead thr s =
     (case m_stream s of
        None \<Rightarrow> Inl NullStreamDeref
      | Some st \<Rightarrow>
          if thr then Inr (drop_ws ReadError s) else Inr (s\<lparr>wire := wire s @ [OpRead]\<rparr>))"

definition onRead ::
  "(bytes \<Rightarrow> int \<times> WsMessage) \<Rightarrow> bool \<Rightarrow> bool \<Rightarrow> session \<Rightarrow> fault + session" where
  "onRead dec ec thr s =
     (if ec then Inr (drop_ws ReadError s) else asyncRead thr (onReadPacket dec s))"

definition startAsClient :: "bool \<Rightarrow> session \<Rightarrow> fault + session" where
  "startAsClient thr s =
     asyncRead thr (if m_connectHandler s then s\<lparr>calls := calls s @ [CallConnect]\<rparr> else s)"

definition onHandshake :: "bool \<Rightarrow> bool \<Rightarrow> session \<Rightarrow> fault + session" where
  "onHandshake ec thr s =
     (if ec then Inr (drop_ws AcceptError s)
      else asyncRead thr (if m_connectHandler s then s\<lparr>calls := calls s @ [CallConnect]\<rparr> else s))"

subsection \<open>Write queue\<close>

definition asyncWrite :: "bool \<Rightarrow> session \<Rightarrow> fault + session" where
  "asyncWrite thr s =
     (case m_stream s of
        None \<Rightarrow> Inl NullStreamDeref
      | Some st \<Rightarrow>
          (case m_queue s of
             [] \<Rightarrow> Inl EmptyQueueAccess
           | b # rest \<Rightarrow>
               if thr then Inr (drop_ws WriteError s)
               else Inr (s\<lparr>wire := wire s @ [OpWrite b], inflight_w := inflight_w s + 1\<rparr>)))"

definition onWritePacket :: "bool \<Rightarrow> session \<Rightarrow> fault + session" where
  "onWritePacket thr s =
     (case m_queue s of
        [] \<Rightarrow> Inl EmptyQueueAccess
      | b # rest \<Rightarrow>
          if rest \<noteq> [] then asyncWrite thr (s\<lparr>m_queue := rest\<rparr>) else Inr (s\<lparr>m_queue := rest\<rparr>))"

definition onWrite :: "bool \<Rightarrow> bool \<Rightarrow> session \<Rightarrow> fault + session" where
  "onWrite ec thr s = (if ec then Inr (drop_ws WriteError s) else onWritePacket thr s)"

text \<open>The first block of asyncSendMessage: the callback and its timer.\<close>

definition registerResp :: "string \<Rightarrow> Options \<Rightarrow> RespCallBack \<Rightarrow> session \<Rightarrow> session" where
  "registerResp sq opts f s =
     (let tmo = (if timeout opts > 0 then timeout opts else m_sendMsgTimeout s)
      in if tmo > 0
         then addRespCallback sq \<lparr>respCallBack = f, timer = Some tmo\<rparr>
                (s\<lparr>timers := timers s @ [(sq, tmo)]\<rparr>)
         else addRespCallback sq \<lparr>respCallBack = f, timer = None\<rparr> s)"

definition asyncSendMessage ::
  "(WsMessage \<Rightarrow> bytes) \<Rightarrow> bool \<Rightarrow> WsMessage \<Rightarrow> Options \<Rightarrow> RespCallBack option \<Rightarrow> session
     \<Rightarrow> fault + session" where
  "asyncSendMessage enc thr msg opts respFunc s =
     (let s1 = (case respFunc of None \<Rightarrow> s | Some f \<Rightarrow> registerResp (seq msg) opts f s);
          isEmpty = (m_queue s1 = []);
          s2 = s1\<lparr>m_queue := m_queue s1 @ [enc msg]\<rparr>
      in if isEmpty then asyncWrite thr s2 else Inr s2)"

subsection \<open>Dispatch\<close>

text \<open>
  Running a pool task. \<open>alive\<close> is the outcome of \<open>self.lock()\<close> in the closures that
  hold a weak pointer.
\<close>

fun run_task :: "bool \<Rightarrow> task \<Rightarrow> action list" where
  "run_task alive DisconnectTask = (if alive then [CallDisconnect] else [])"
| "run_task alive (ReadTask message callback) =
     (if \<not> alive then []
      else case callback of
             Some cb \<Rightarrow>
               (case timer cb of Some t \<Rightarrow> [CancelTimer t] | None \<Rightarrow> [])
               @ [CallResp (respCallBack cb) None (Some message) True]
           | None \<Rightarrow> [CallRecv message])"
| "run_task alive (TimeoutTask cb e) = [CallResp (respCallBack cb) (Some e) None False]"


subsection \<open>Sample values\<close>

text \<open>
  A session after construction with a live stream, and a small codec: the empty buffer
  does not decode, any other buffer decodes to a message whose sequence identifier is
  \<open>''a''\<close>.
\<close>

definition session0 :: session where
  "session0 =
     \<lparr>m_isDrop = False, m_stream = Some WsStream, m_buffer = [], m_queue = [],
      m_callbacks = Map.empty, m_sendMsgTimeout = 0, m_connectHandler = True,
      wire = [], inflight_w = 0, pool = [], timers = [], dropLog = [], calls = []\<rparr>"

definition sample_decode :: "bytes \<Rightarrow> int \<times> WsMessage" where
  "sample_decode b =
     (if b = [] then (- 1, \<lparr>seq = [], payload = []\<rparr>)
      else (0, \<lparr>seq = ''a'', payload = b\<rparr>))"

definition sample_encode :: "WsMessage \<Rightarrow> bytes" where
  "sample_encode m = payload m"
subsection \<open>The write queue and its environment\<close>

text \<open>
  The outcome of a call that may reach undefined behaviour is passed on: a fault ends
  the run.
\<close>

fun bind_res :: "fault + session \<Rightarrow> (session \<Rightarrow> fault + session) \<Rightarrow> fault + session" where
  "bind_res (Inl e) f = Inl e"
| "bind_res (Inr s) f = f s"

text \<open>
  The events that drive the write queue: a caller sends a message, or the transport
  completes the write in flight. \<open>inflight_w\<close> counts the writes the transport has
  accepted and not yet completed; the transport calls onWrite once for each of them, so
  a completion is enabled only while one is in flight.
\<close>

datatype wevent =
  Send WsMessage Options "RespCallBack option" bool
  | WriteDone bool bool

fun enabled :: "wevent \<Rightarrow> session \<Rightarrow> bool" where
  "enabled (Send msg opts respFunc thr) s = True"
| "enabled (WriteDone ec thr) s = (0 < inflight_w s)"

fun deliver :: "(WsMessage \<Rightarrow> bytes) \<Rightarrow> wevent \<Rightarrow> session \<Rightarrow> fault + session" where
  "deliver enc (Send msg opts respFunc thr) s = asyncSendMessage enc thr msg opts respFunc s"
| "deliver enc (WriteDone ec thr) s = onWrite ec thr (s\<lparr>inflight_w := inflight_w s - 1\<rparr>)"

fun run :: "(WsMessage \<Rightarrow> bytes) \<Rightarrow> wevent list \<Rightarrow> session \<Rightarrow> fault + session" where
  "run enc [] s = Inr s"
| "run enc (e # es) s = bind_res (deliver enc e s) (run enc es)"

fun admissible :: "(WsMessage \<Rightarrow> bytes) \<Rightarrow> wevent list \<Rightarrow> session \<Rightarrow> bool" where
  "admissible enc [] s = True"
| "admissible enc (e # es) s =
     (enabled e s \<and> (case deliver enc e s of Inl f \<Rightarrow> True | Inr s' \<Rightarrow> admissible enc es s'))"

text \<open>The encoded buffers a schedule submits, and the buffers a transport log wrote, in order.\<close>

fun sent :: "(WsMessage \<Rightarrow> bytes) \<Rightarrow> wevent list \<Rightarrow> bytes list" where
  "sent enc [] = []"
| "sent enc (Send msg opts respFunc thr # es) = enc msg # sent enc es"
| "sent enc (WriteDone ec thr # es) = sent enc es"

fun written :: "transport_op list \<Rightarrow> bytes list" where
  "written [] = []"
| "written (OpWrite b # ops) = b # written ops"
| "written (x # ops) = written ops"

text \<open>
  The state of asyncSendMessage where it tests \<open>isEmpty\<close>: the callback registered,
  the buffer appended.
\<close>

definition queued :: "(WsMessage \<Rightarrow> bytes) \<Rightarrow> WsMessage \<Rightarrow> Options \<Rightarrow> RespCallBack option
    \<Rightarrow> session \<Rightarrow> session" where
  "queued enc msg opts respFunc s =
     (case respFunc of None \<Rightarrow> s | Some f \<Rightarrow> registerResp (seq msg) opts f s)
       \<lparr>m_queue := m_queue s @ [enc msg]\<rparr>"

text \<open>
  The invariant of the write queue, for the list \<open>S\<close> of all buffers submitted so far:
  \<open>S\<close> is the buffers already erased followed by the queue, and the session is idle
  (nothing queued, all written), busy (the head of the queue is in flight) or torn down
  with a queue that no longer moves.
\<close>

definition wq_inv :: "bytes list \<Rightarrow> session \<Rightarrow> bool" where
  "wq_inv S s =
     (\<exists>P. S = P @ m_queue s \<and>
        ((m_stream s \<noteq> None \<and> inflight_w s = 0 \<and> m_queue s = [] \<and> written (wire s) = P)
       \<or> (m_stream s \<noteq> None \<and> inflight_w s = 1 \<and> m_queue s \<noteq> []
            \<and> written (wire s) = P @ [hd (m_queue s)])
       \<or> (m_stream s = None \<and> inflight_w s = 0 \<and> m_queue s \<noteq> []
            \<and> (written (wire s) = P \<or> written (wire s) = P @ [hd (m_queue s)]))))"

subsection \<open>Sequences of registry operations\<close>




subsection \<open>Overlapping calls of getAndRemoveRespCallback\<close>

text \<open>
  The body of getAndRemoveRespCallback statement by statement, for two callers (the read
  path and the timer path) whose calls may overlap. A caller is before the
  \<open>std::shared_lock\<close>, holds it, has found its iterator (\<open>None\<close> is \<open>end()\<close>), has copied
  \<open>it->second\<close>, is about to leave the block, or has returned. A shared lock is held by
  any number of callers at once: taking it only counts the holders. Reading or erasing
  through an iterator whose entry another caller has erased is undefined behaviour, the
  result \<open>None\<close> of a step.
\<close>

datatype caller = ReadPath | TimerPath

datatype gar_pc =
  Entry
  | Locked
  | Found "CallBack option"
  | Copied CallBack
  | Leaving "CallBack option"
  | Returned "CallBack option"

fun gar_step :: "string \<Rightarrow> bool \<Rightarrow> gar_pc \<Rightarrow> (string \<rightharpoonup> CallBack) \<times> nat
    \<Rightarrow> (gar_pc \<times> (string \<rightharpoonup> CallBack) \<times> nat) option" where
  "gar_step sq rm Entry (reg, h) = Some (Locked, reg, h + 1)"
| "gar_step sq rm Locked (reg, h) = Some (Found (reg sq), reg, h)"
| "gar_step sq rm (Found None) (reg, h) = Some (Leaving None, reg, h)"
| "gar_step sq rm (Found (Some cb)) (reg, h) =
     (if reg sq = Some cb then Some (Copied cb, reg, h) else None)"
| "gar_step sq rm (Copied cb) (reg, h) =
     (if rm then (if reg sq = Some cb then Some (Leaving (Some cb), reg(sq := None), h) else None)
      else Some (Leaving (Some cb), reg, h))"
| "gar_step sq rm (Leaving r) (reg, h) = Some (Returned r, reg, h - 1)"
| "gar_step sq rm (Returned r) (reg, h) = Some (Returned r, reg, h)"

fun gar_run :: "string \<Rightarrow> bool \<Rightarrow> caller list
    \<Rightarrow> gar_pc \<times> gar_pc \<times> (string \<rightharpoonup> CallBack) \<times> nat
    \<Rightarrow> (gar_pc \<times> gar_pc \<times> (string \<rightharpoonup> CallBack) \<times> nat) option" where
  "gar_run sq rm [] c = Some c"
| "gar_run sq rm (ReadPath # cs) (p, q, reg, h) =
     (case gar_step sq rm p (reg, h) of
        None \<Rightarrow> None
      | Some (p', reg', h') \<Rightarrow> gar_run sq rm cs (p', q, reg', h'))"
| "gar_run sq rm (TimerPath # cs) (p, q, reg, h) =
     (case gar_step sq rm q (reg, h) of
        None \<Rightarrow> None
      | Some (q', reg', h') \<Rightarrow> gar_run sq rm cs (p, q', reg', h'))"

subsection \<open>More sample values\<close>

definition session1 :: session where
  "session1 = addRespCallback ''a'' \<lparr>respCallBack = 7, timer = Some 5\<rparr> (session0\<lparr>m_buffer := [1]\<rparr>)"

definition msg1 :: WsMessage where "msg1 = \<lparr>seq = ''a'', payload = [1]\<rparr>"

definition msg2 :: WsMessage where "msg2 = \<lparr>seq = ''b'', payload = [2]\<rparr>"

definition schedule0 :: "wevent list" where
  "schedule0 =
     [Send msg1 \<lparr>timeout = 0\<rparr> None False, Send msg2 \<lparr>timeout = 0\<rparr> (Some 7) False,
      WriteDone False False, WriteDone False False]"

section \<open>Facts about the operations\<close>

lemmas eval_defs = asyncSendMessage_def registerResp_def addRespCallback_def asyncWrite_def
  onWrite_def onWritePacket_def onRead_def onReadPacket_def asyncRead_def startAsClient_def
  drop_ws_def disconnect_def getAndRemoveRespCallback_def onRespTimeout_def remove_default_def
  session0_def session1_def sample_decode_def sample_encode_def msg1_def msg2_def Let_def

subsection \<open>What drop changes\<close>

lemma drop_ws_callbacks [simp]: "m_callbacks (drop_ws r s) = m_callbacks s"
  by (simp add: drop_ws_def disconnect_def Let_def split: option.splits)

lemma drop_ws_timers [simp]: "timers (drop_ws r s) = timers s"
  by (simp add: drop_ws_def disconnect_def Let_def split: option.splits)

lemma drop_ws_pool [simp]: "pool (drop_ws r s) = pool s @ [DisconnectTask]"
  by (simp add: drop_ws_def disconnect_def Let_def split: option.splits)

lemma drop_ws_stream [simp]: "m_stream (drop_ws r s) = None"
  by (simp add: drop_ws_def disconnect_def Let_def split: option.splits)

lemma drop_ws_isDrop [simp]: "m_isDrop (drop_ws r s) = True"
  by (simp add: drop_ws_def disconnect_def Let_def split: option.splits)

lemma drop_ws_dropLog [simp]: "dropLog (drop_ws r s) = dropLog s @ [r]"
  by (simp add: drop_ws_def disconnect_def Let_def split: option.splits)

lemma drop_ws_queue [simp]: "m_queue (drop_ws r s) = m_queue s"
  by (simp add: drop_ws_def disconnect_def Let_def split: option.splits)

lemma drop_ws_inflight [simp]: "inflight_w (drop_ws r s) = inflight_w s"
  by (simp add: drop_ws_def disconnect_def Let_def split: option.splits)

lemma drop_ws_wire:
  "wire (drop_ws r s) = (case m_stream s of None \<Rightarrow> wire s | Some st \<Rightarrow> wire s @ [OpClose])"
  by (simp add: drop_ws_def disconnect_def Let_def split: option.splits)

text \<open>
  A second drop closes nothing (the handle is already null) and enqueues a second
  disconnect task: drop does not test \<open>m_isDrop\<close>.
\<close>

lemma drop_ws_again:
  "wire (drop_ws r2 (drop_ws r1 s)) = wire (drop_ws r1 s)
   \<and> pool (drop_ws r2 (drop_ws r1 s)) = pool s @ [DisconnectTask, DisconnectTask]"
  by (simp add: drop_ws_wire)

subsection \<open>Calls through a null stream\<close>

lemma asyncRead_null: "m_stream s = None \<Longrightarrow> asyncRead thr s = Inl NullStreamDeref"
  by (simp add: asyncRead_def)

lemma asyncWrite_null: "m_stream s = None \<Longrightarrow> asyncWrite thr s = Inl NullStreamDeref"
  by (simp add: asyncWrite_def)

lemma asyncWrite_live:
  "m_stream s \<noteq> None \<Longrightarrow> m_queue s = b # rest \<Longrightarrow>
     asyncWrite thr s =
       Inr (if thr then drop_ws WriteError s
            else s\<lparr>wire := wire s @ [OpWrite b], inflight_w := inflight_w s + 1\<rparr>)"
  by (auto simp: asyncWrite_def)

text \<open>
  After a decode failure onReadPacket has dropped the session, and onRead goes on to
  asyncRead, which calls through the null handle.
\<close>

lemma decode_failure_faults:
  assumes "fst (dec (m_buffer s)) < 0"
  shows "onReadPacket dec s = drop_ws PacketError s"
    and "onRead dec False thr s = Inl NullStreamDeref"
proof -
  from assms show p: "onReadPacket dec s = drop_ws PacketError s"
    by (cases "dec (m_buffer s)") (simp add: onReadPacket_def)
  show "onRead dec False thr s = Inl NullStreamDeref"
    by (simp add: onRead_def p asyncRead_null)
qed

subsection \<open>The registry\<close>








text \<open>
  A caller that runs alone through the statements computes getAndRemoveRespCallback. Two
  callers that overlap under the shared lock both find and copy the callback of a
  registered identifier; the first then erases the entry and returns the callback, and
  the erase of the second goes through an invalidated iterator.
\<close>

lemma gar_alone:
  "gar_run sq rm [ReadPath, ReadPath, ReadPath, ReadPath, ReadPath] (Entry, q, m_callbacks s, h)
     = Some (Returned (fst (getAndRemoveRespCallback sq rm s)), q,
             m_callbacks (snd (getAndRemoveRespCallback sq rm s)), h)"
  by (cases "m_callbacks s sq") (simp_all add: getAndRemoveRespCallback_def)

lemma gar_overlap:
  assumes "reg sq = Some cb"
  shows "gar_run sq True [ReadPath, TimerPath, ReadPath, TimerPath, ReadPath, TimerPath]
           (Entry, Entry, reg, 0) = Some (Copied cb, Copied cb, reg, 2)"
    and "gar_run sq True [ReadPath, ReadPath] (Copied cb, Copied cb, reg, 2)
           = Some (Returned (Some cb), Copied cb, reg(sq := None), 1)"
    and "gar_step sq True (Copied cb) (reg(sq := None), 1) = None"
  using assms by simp_all

lemma registerResp_callbacks:
  "m_callbacks (registerResp sq opts f s) sq =
     Some \<lparr>respCallBack = f,
           timer = (if 0 < (if 0 < timeout opts then timeout opts else m_sendMsgTimeout s)
                    then Some (if 0 < timeout opts then timeout opts else m_sendMsgTimeout s)
                    else None)\<rparr>"
  by (simp add: registerResp_def addRespCallback_def Let_def)

lemma registerResp_timers:
  "timers (registerResp sq opts f s) =
     (if 0 < (if 0 < timeout opts then timeout opts else m_sendMsgTimeout s)
      then timers s @ [(sq, if 0 < timeout opts then timeout opts else m_sendMsgTimeout s)]
      else timers s)"
  by (simp add: registerResp_def addRespCallback_def Let_def)

lemma registerResp_frame [simp]:
  "m_stream (registerResp sq opts f s) = m_stream s"
  "m_queue (registerResp sq opts f s) = m_queue s"
  "wire (registerResp sq opts f s) = wire s"
  "inflight_w (registerResp sq opts f s) = inflight_w s"
  by (simp_all add: registerResp_def addRespCallback_def Let_def)

lemma asyncWrite_callbacks:
  "asyncWrite thr s = Inr s' \<Longrightarrow> m_callbacks s' = m_callbacks s \<and> timers s' = timers s"
  by (auto simp: asyncWrite_def split: option.splits list.splits if_splits)

subsection \<open>The write queue\<close>

lemma written_append [simp]: "written (xs @ ys) = written xs @ written ys"
  by (induction xs rule: written.induct) simp_all

lemma written_drop_ws [simp]: "written (wire (drop_ws r s)) = written (wire s)"
  by (simp add: drop_ws_wire split: option.splits)

lemma queued_frame [simp]:
  "m_stream (queued enc msg opts respFunc s) = m_stream s"
  "m_queue (queued enc msg opts respFunc s) = m_queue s @ [enc msg]"
  "wire (queued enc msg opts respFunc s) = wire s"
  "inflight_w (queued enc msg opts respFunc s) = inflight_w s"
  by (simp_all add: queued_def split: option.splits)

lemma asyncSendMessage_queued:
  "asyncSendMessage enc thr msg opts respFunc s =
     (if m_queue s = [] then asyncWrite thr (queued enc msg opts respFunc s)
      else Inr (queued enc msg opts respFunc s))"
  by (simp add: asyncSendMessage_def queued_def Let_def split: option.splits)

lemma send_step:
  assumes "asyncSendMessage enc thr msg opts respFunc s = Inr s'"
  shows "m_queue s' = m_queue s @ [enc msg]
     \<and> written (wire s') =
         (if m_queue s = [] \<and> \<not> thr then written (wire s) @ [enc msg] else written (wire s))"
  using assms
  by (auto simp: asyncSendMessage_queued asyncWrite_def split: if_splits option.splits list.splits)

lemma pop_step:
  assumes "onWritePacket thr s = Inr s'"
  shows "m_queue s \<noteq> [] \<and> m_queue s' = tl (m_queue s)
     \<and> written (wire s') =
         (if m_queue s' \<noteq> [] \<and> \<not> thr then written (wire s) @ [hd (m_queue s')]
          else written (wire s))"
  using assms
  by (auto simp: onWritePacket_def asyncWrite_def split: if_splits option.splits list.splits)

text \<open>A send keeps the invariant and never faults from a state that satisfies it.\<close>

lemma send_inv:
  assumes "wq_inv S s"
  shows "\<exists>s'. asyncSendMessage enc thr msg opts respFunc s = Inr s' \<and> wq_inv (S @ [enc msg]) s'"
proof -
  from assms obtain P where S: "S = P @ m_queue s"
    and modes: "(m_stream s \<noteq> None \<and> inflight_w s = 0 \<and> m_queue s = [] \<and> written (wire s) = P)
       \<or> (m_stream s \<noteq> None \<and> inflight_w s = 1 \<and> m_queue s \<noteq> []
            \<and> written (wire s) = P @ [hd (m_queue s)])
       \<or> (m_stream s = None \<and> inflight_w s = 0 \<and> m_queue s \<noteq> []
            \<and> (written (wire s) = P \<or> written (wire s) = P @ [hd (m_queue s)]))"
    unfolding wq_inv_def by blast
  let ?q = "queued enc msg opts respFunc s"
  show ?thesis
  proof (cases "m_queue s = []")
    case True
    with modes have idle: "m_stream s \<noteq> None" "inflight_w s = 0" "written (wire s) = P"
      by auto
    from idle True have res: "asyncSendMessage enc thr msg opts respFunc s =
        Inr (if thr then drop_ws WriteError ?q
             else ?q\<lparr>wire := wire ?q @ [OpWrite (enc msg)], inflight_w := inflight_w ?q + 1\<rparr>)"
      by (simp add: asyncSendMessage_queued asyncWrite_live [where b = "enc msg" and rest = "[]"])
    have "wq_inv (S @ [enc msg]) (if thr then drop_ws WriteError ?q
             else ?q\<lparr>wire := wire ?q @ [OpWrite (enc msg)], inflight_w := inflight_w ?q + 1\<rparr>)"
      unfolding wq_inv_def using S True idle
      by (intro exI [of _ P]) simp
    with res show ?thesis by blast
  next
    case False
    then have res: "asyncSendMessage enc thr msg opts respFunc s = Inr ?q"
      by (simp add: asyncSendMessage_queued)
    have "wq_inv (S @ [enc msg]) ?q"
      unfolding wq_inv_def using S False modes
      by (intro exI [of _ P]) auto
    with res show ?thesis by blast
  qed
qed

text \<open>So does the completion of the write in flight, with or without an error.\<close>

lemma done_inv:
  assumes "wq_inv S s" and "0 < inflight_w s"
  shows "\<exists>s'. onWrite ec thr (s\<lparr>inflight_w := inflight_w s - 1\<rparr>) = Inr s' \<and> wq_inv S s'"
proof -
  from assms obtain P where S: "S = P @ m_queue s"
    and busy: "m_stream s \<noteq> None" "inflight_w s = 1" "m_queue s \<noteq> []"
      "written (wire s) = P @ [hd (m_queue s)]"
    unfolding wq_inv_def by auto
  from busy obtain b rest where q: "m_queue s = b # rest"
    by (cases "m_queue s") auto
  let ?s = "s\<lparr>inflight_w := inflight_w s - 1\<rparr>"
  show ?thesis
  proof (cases ec)
    case True
    then have res: "onWrite ec thr ?s = Inr (drop_ws WriteError ?s)"
      by (simp add: onWrite_def)
    have "wq_inv S (drop_ws WriteError ?s)"
      unfolding wq_inv_def using S busy q
      by (intro exI [of _ P]) simp
    with res show ?thesis by blast
  next
    case False
    note noerr = this
    let ?p = "?s\<lparr>m_queue := rest\<rparr>"
    show ?thesis
    proof (cases rest)
      case Nil
      with noerr q have res: "onWrite ec thr ?s = Inr ?p"
        by (simp add: onWrite_def onWritePacket_def)
      have "wq_inv S ?p"
        unfolding wq_inv_def using S busy q Nil
        by (intro exI [of _ "P @ [b]"]) simp
      with res show ?thesis by blast
    next
      case (Cons c rest')
      with noerr q busy have res: "onWrite ec thr ?s =
          Inr (if thr then drop_ws WriteError ?p
               else ?p\<lparr>wire := wire ?p @ [OpWrite c], inflight_w := inflight_w ?p + 1\<rparr>)"
        by (simp add: onWrite_def onWritePacket_def asyncWrite_live [where b = c and rest = rest'])
      have "wq_inv S (if thr then drop_ws WriteError ?p
               else ?p\<lparr>wire := wire ?p @ [OpWrite c], inflight_w := inflight_w ?p + 1\<rparr>)"
        unfolding wq_inv_def using S busy q Cons
        by (intro exI [of _ "P @ [b]"]) simp
      with res show ?thesis by blast
    qed
  qed
qed

lemma sent_append: "sent enc (e # es) = sent enc [e] @ sent enc es"
  by (cases e) simp_all

lemma admissible_prefix: "admissible enc (xs @ ys) s \<Longrightarrow> admissible enc xs s"
  by (induction xs arbitrary: s) (auto split: sum.splits)

lemma run_inv:
  "wq_inv S s \<Longrightarrow> admissible enc evs s \<Longrightarrow>
     \<exists>s'. run enc evs s = Inr s' \<and> wq_inv (S @ sent enc evs) s'"
proof (induction evs arbitrary: S s)
  case Nil
  then show ?case by simp
next
  case (Cons e evs)
  have "\<exists>s1. deliver enc e s = Inr s1 \<and> wq_inv (S @ sent enc [e]) s1"
  proof (cases e)
    case (Send msg opts respFunc thr)
    with send_inv [OF Cons.prems(1)] show ?thesis by simp
  next
    case (WriteDone ec thr)
    with Cons.prems have "0 < inflight_w s" by simp
    with done_inv [OF Cons.prems(1)] WriteDone show ?thesis by simp
  qed
  then obtain s1 where d: "deliver enc e s = Inr s1" and i: "wq_inv (S @ sent enc [e]) s1"
    by blast
  from Cons.prems d have "admissible enc evs s1" by simp
  from Cons.IH [OF i this] obtain s' where
    "run enc evs s1 = Inr s'" "wq_inv ((S @ sent enc [e]) @ sent enc evs) s'"
    by blast
  with d show ?case
    by (simp add: sent_append [of enc e evs])
qed

section \<open>Properties\<close>

text \<open>
  C1. Required: however often drop is called, the transport is closed once and the
  disconnect handler runs once. The code closes once but schedules the handler at every
  call. Here a write completes with an error (drop with WriteError) and then the read
  completes with an error (drop with ReadError): the stream is closed once, the pool
  holds two disconnect tasks, and with the session alive each of them calls the
  disconnect handler.
\<close>

theorem read_and_write_error_two_disconnects:
  "case run sample_encode [Send msg1 \<lparr>timeout = 0\<rparr> None False, WriteDone True False] session0 of
     Inl f \<Rightarrow> False
   | Inr s \<Rightarrow>
       (case onRead sample_decode True False s of
          Inl f \<Rightarrow> False
        | Inr s' \<Rightarrow>
            dropLog s' = [WriteError, ReadError]
            \<and> pool s' = [DisconnectTask, DisconnectTask]
            \<and> concat (map (run_task True) (pool s')) = [CallDisconnect, CallDisconnect]
            \<and> written (wire s') = [[1]] \<and> filter (\<lambda>x. x = OpClose) (wire s') = [OpClose])"
  by (simp add: eval_defs)




text \<open>
  C3. From a session with a live stream and an empty queue, every schedule of sends and
  write completions (a completion only while a write is in flight; any of the transport
  calls may throw, any completion may carry an error) runs without fault, and after
  each of its steps: at most one write is in flight; the buffers submitted are some list \<open>P\<close> followed by the
  queue, and the buffers written to the transport are \<open>P\<close>, or \<open>P\<close> and the head of the
  queue, so they went out in the order of submission; a write in flight is the head of
  the queue. A send appends its buffer and writes it only if the queue was empty before;
  a write completion erases the head and writes the new head if there is one.
\<close>

theorem write_queue_fifo:
  "(m_stream s0 \<noteq> None \<and> m_queue s0 = [] \<and> inflight_w s0 = 0 \<and> written (wire s0) = []
      \<and> admissible enc evs s0 \<longrightarrow>
     (\<forall>n. \<exists>s P. run enc (take n evs) s0 = Inr s \<and> inflight_w s \<le> 1
        \<and> sent enc (take n evs) = P @ m_queue s
        \<and> (written (wire s) = P \<or> (m_queue s \<noteq> [] \<and> written (wire s) = P @ [hd (m_queue s)]))
        \<and> (inflight_w s = 1 \<longrightarrow> m_queue s \<noteq> [] \<and> written (wire s) = P @ [hd (m_queue s)])
        \<and> (inflight_w s = 0 \<and> m_stream s \<noteq> None \<longrightarrow> m_queue s = [])))
   \<and> (asyncSendMessage enc thr msg opts respFunc s = Inr s' \<longrightarrow>
        m_queue s' = m_queue s @ [enc msg]
        \<and> written (wire s') =
            (if m_queue s = [] \<and> \<not> thr then written (wire s) @ [enc msg] else written (wire s)))
   \<and> (onWritePacket thr t = Inr t' \<longrightarrow>
        m_queue t \<noteq> [] \<and> m_queue t' = tl (m_queue t)
        \<and> written (wire t') =
            (if m_queue t' \<noteq> [] \<and> \<not> thr then written (wire t) @ [hd (m_queue t')]
             else written (wire t)))"
proof (intro conjI impI allI)
  fix n
  assume init: "m_stream s0 \<noteq> None \<and> m_queue s0 = [] \<and> inflight_w s0 = 0 \<and> written (wire s0) = []
      \<and> admissible enc evs s0"
  then have "wq_inv [] s0"
    by (simp add: wq_inv_def)
  moreover from init have "admissible enc (take n evs) s0"
    using admissible_prefix [of enc "take n evs" "drop n evs" s0] by simp
  ultimately obtain s where r: "run enc (take n evs) s0 = Inr s"
    and i: "wq_inv ([] @ sent enc (take n evs)) s"
    using run_inv by blast
  from i obtain P where "sent enc (take n evs) = P @ m_queue s"
    and "(m_stream s \<noteq> None \<and> inflight_w s = 0 \<and> m_queue s = [] \<and> written (wire s) = P)
       \<or> (m_stream s \<noteq> None \<and> inflight_w s = 1 \<and> m_queue s \<noteq> []
            \<and> written (wire s) = P @ [hd (m_queue s)])
       \<or> (m_stream s = None \<and> inflight_w s = 0 \<and> m_queue s \<noteq> []
            \<and> (written (wire s) = P \<or> written (wire s) = P @ [hd (m_queue s)]))"
    unfolding wq_inv_def by auto
  with r show "\<exists>s P. run enc (take n evs) s0 = Inr s \<and> inflight_w s \<le> 1
        \<and> sent enc (take n evs) = P @ m_queue s
        \<and> (written (wire s) = P \<or> (m_queue s \<noteq> [] \<and> written (wire s) = P @ [hd (m_queue s)]))
        \<and> (inflight_w s = 1 \<longrightarrow> m_queue s \<noteq> [] \<and> written (wire s) = P @ [hd (m_queue s)])
        \<and> (inflight_w s = 0 \<and> m_stream s \<noteq> None \<longrightarrow> m_queue s = [])"
    by (intro exI [of _ s] exI [of _ P]) auto
next
  assume "asyncSendMessage enc thr msg opts respFunc s = Inr s'"
  from send_step [OF this]
  show "m_queue s' = m_queue s @ [enc msg]"
    and "written (wire s') =
            (if m_queue s = [] \<and> \<not> thr then written (wire s) @ [enc msg] else written (wire s))"
    by simp_all
next
  assume "onWritePacket thr t = Inr t'"
  from pop_step [OF this]
  show "m_queue t \<noteq> []" and "m_queue t' = tl (m_queue t)"
    and "written (wire t') =
            (if m_queue t' \<noteq> [] \<and> \<not> thr then written (wire t) @ [hd (m_queue t')]
             else written (wire t))"
    by simp_all
qed

theorem write_queue_fifo_witness:
  "admissible sample_encode schedule0 session0
   \<and> sent sample_encode schedule0 = [[1], [2]]
   \<and> (\<exists>s. run sample_encode schedule0 session0 = Inr s \<and> inflight_w s = 0 \<and> m_queue s = []
          \<and> written (wire s) = [[1], [2]])
   \<and> (\<exists>s'. asyncSendMessage sample_encode False msg1 \<lparr>timeout = 0\<rparr> None session0 = Inr s'
          \<and> m_queue s' = [[1]] \<and> written (wire s') = [[1]])
   \<and> (\<exists>t'. onWritePacket False (session0\<lparr>m_queue := [[1], [2]]\<rparr>) = Inr t'
          \<and> m_queue t' = [[2]] \<and> written (wire t') = [[2]])"
proof -
  have a: "admissible sample_encode schedule0 session0"
    by (simp add: schedule0_def eval_defs)
  have b: "m_stream session0 \<noteq> None \<and> m_queue session0 = [] \<and> inflight_w session0 = 0
      \<and> written (wire session0) = []"
    by (simp add: session0_def)
  have c: "sent sample_encode schedule0 = [[1], [2]]"
    by (simp add: schedule0_def eval_defs)
  have l: "take 4 schedule0 = schedule0"
    by (simp add: schedule0_def)
  have d: "\<exists>s'. asyncSendMessage sample_encode False msg1 \<lparr>timeout = 0\<rparr> None session0 = Inr s'"
    by (simp add: eval_defs)
  have e: "\<exists>t'. onWritePacket False (session0\<lparr>m_queue := [[1], [2]]\<rparr>) = Inr t'"
    by (simp add: eval_defs)
  from d obtain s' where
    d': "asyncSendMessage sample_encode False msg1 \<lparr>timeout = 0\<rparr> None session0 = Inr s'"
    by blast
  from e obtain t' where e': "onWritePacket False (session0\<lparr>m_queue := [[1], [2]]\<rparr>) = Inr t'"
    by blast
  note inst = write_queue_fifo [where ?s0.0 = session0 and enc = sample_encode
      and evs = schedule0 and thr = False and msg = msg1 and opts = "\<lparr>timeout = 0\<rparr>"
      and respFunc = None and s = session0 and s' = s'
      and t = "session0\<lparr>m_queue := [[1], [2]]\<rparr>" and t' = t']
  from inst a b have "\<exists>s P. run sample_encode (take 4 schedule0) session0 = Inr s
      \<and> inflight_w s \<le> 1 \<and> sent sample_encode (take 4 schedule0) = P @ m_queue s
      \<and> (written (wire s) = P \<or> (m_queue s \<noteq> [] \<and> written (wire s) = P @ [hd (m_queue s)]))
      \<and> (inflight_w s = 1 \<longrightarrow> m_queue s \<noteq> [] \<and> written (wire s) = P @ [hd (m_queue s)])
      \<and> (inflight_w s = 0 \<and> m_stream s \<noteq> None \<longrightarrow> m_queue s = [])"
    by blast
  then obtain s P where r: "run sample_encode schedule0 session0 = Inr s"
    and p: "sent sample_encode schedule0 = P @ m_queue s" "inflight_w s \<le> 1"
      "written (wire s) = P \<or> (m_queue s \<noteq> [] \<and> written (wire s) = P @ [hd (m_queue s)])"
      "inflight_w s = 0 \<and> m_stream s \<noteq> None \<longrightarrow> m_queue s = []"
    unfolding l by blast
  have f: "run sample_encode schedule0 session0 = Inr s \<Longrightarrow> inflight_w s = 0 \<and> m_stream s \<noteq> None"
    by (auto simp: schedule0_def eval_defs)
  with r p c have g: "inflight_w s = 0 \<and> m_queue s = [] \<and> written (wire s) = [[1], [2]]"
    by auto
  from inst d' have h: "m_queue s' = [[1]] \<and> written (wire s') = [[1]]"
    by (simp add: session0_def msg1_def sample_encode_def)
  from inst e' have i: "m_queue t' = [[2]] \<and> written (wire t') = [[2]]"
    by (simp add: session0_def)
  from a c r g d' h e' i show ?thesis by blast
qed

text \<open>
  C4. Required: on a decode failure the session drops with PacketError, calls no
  handler for the input, and issues no further read. The first two hold. For the
  third, onRead calls asyncRead after onReadPacket whatever the decode returned: on the
  empty buffer, which the sample codec rejects, onReadPacket is drop with PacketError
  (one disconnect task, no read task), the stream is null afterwards, and onRead ends in
  the call of asyncRead through the null stream.
\<close>

theorem decode_failure_rearms_read:
  "fst (sample_decode (m_buffer session0)) < 0
   \<and> onReadPacket sample_decode session0 = drop_ws PacketError session0
   \<and> dropLog (drop_ws PacketError session0) = [PacketError]
   \<and> pool (drop_ws PacketError session0) = [DisconnectTask]
   \<and> m_stream (drop_ws PacketError session0) = None
   \<and> onRead sample_decode False False session0 = Inl NullStreamDeref"
  by (simp add: eval_defs)

text \<open>
  C5. Required: once \<open>m_isDrop\<close> is set, no read or write is started. No path tests
  the flag or the handle before asyncRead or asyncWrite. With two buffers queued and the
  first in flight, a read completion with an error drops the session; the successful
  completion of the write in flight then erases the head and calls asyncWrite for the
  second buffer through the null stream. Likewise a send on the dropped session with an
  empty queue, and a successful read completion on a dropped session.
\<close>

theorem io_rearmed_after_drop:
  "(case run sample_encode
           [Send msg1 \<lparr>timeout = 0\<rparr> None False, Send msg2 \<lparr>timeout = 0\<rparr> None False] session0 of
      Inl f \<Rightarrow> False
    | Inr s \<Rightarrow>
        (case onRead sample_decode True False s of
           Inl f \<Rightarrow> False
         | Inr s' \<Rightarrow>
             m_isDrop s' \<and> m_stream s' = None \<and> enabled (WriteDone False False) s'
             \<and> deliver sample_encode (WriteDone False False) s' = Inl NullStreamDeref))
   \<and> m_isDrop (drop_ws ReadError session0)
   \<and> asyncSendMessage sample_encode False msg1 \<lparr>timeout = 0\<rparr> None (drop_ws ReadError session0)
       = Inl NullStreamDeref
   \<and> onRead sample_decode False False (drop_ws WriteError (session0\<lparr>m_buffer := [1]\<rparr>))
       = Inl NullStreamDeref"
  by (simp add: eval_defs)

text \<open>
  C6. asyncSendMessage with a response handler is the registration of the handler
  followed by the send without one. The registration stores under the message's sequence
  identifier a callback with that handler. The timeout is the one of the options when
  that is positive, the session default otherwise; when this timeout is positive the
  callback has a timer with that delay and the timer is armed, and when it is zero or
  less the callback has no timer and none is armed. When the call returns, the session
  holds that callback and those timers.
\<close>

theorem send_registers_callback:
  "asyncSendMessage enc thr msg opts (Some f) s
     = asyncSendMessage enc thr msg opts None (registerResp (seq msg) opts f s)
   \<and> m_callbacks (registerResp (seq msg) opts f s) (seq msg) =
       Some \<lparr>respCallBack = f,
             timer = (if 0 < (if 0 < timeout opts then timeout opts else m_sendMsgTimeout s)
                      then Some (if 0 < timeout opts then timeout opts else m_sendMsgTimeout s)
                      else None)\<rparr>
   \<and> timers (registerResp (seq msg) opts f s) =
       (if 0 < (if 0 < timeout opts then timeout opts else m_sendMsgTimeout s)
        then timers s @ [(seq msg, if 0 < timeout opts then timeout opts else m_sendMsgTimeout s)]
        else timers s)
   \<and> (asyncSendMessage enc thr msg opts (Some f) s = Inr s' \<longrightarrow>
        m_callbacks s' (seq msg) =
          Some \<lparr>respCallBack = f,
                timer = (if 0 < (if 0 < timeout opts then timeout opts else m_sendMsgTimeout s)
                         then Some (if 0 < timeout opts then timeout opts else m_sendMsgTimeout s)
                         else None)\<rparr>
        \<and> timers s' =
          (if 0 < (if 0 < timeout opts then timeout opts else m_sendMsgTimeout s)
           then timers s @ [(seq msg, if 0 < timeout opts then timeout opts else m_sendMsgTimeout s)]
           else timers s))"
proof (intro conjI impI)
  let ?s1 = "registerResp (seq msg) opts f s"
  let ?s2 = "?s1\<lparr>m_queue := m_queue ?s1 @ [enc msg]\<rparr>"
  show "asyncSendMessage enc thr msg opts (Some f) s = asyncSendMessage enc thr msg opts None ?s1"
    by (simp add: asyncSendMessage_def)
  show "m_callbacks ?s1 (seq msg) =
       Some \<lparr>respCallBack = f,
             timer = (if 0 < (if 0 < timeout opts then timeout opts else m_sendMsgTimeout s)
                      then Some (if 0 < timeout opts then timeout opts else m_sendMsgTimeout s)
                      else None)\<rparr>"
    by (rule registerResp_callbacks)
  show "timers ?s1 =
       (if 0 < (if 0 < timeout opts then timeout opts else m_sendMsgTimeout s)
        then timers s @ [(seq msg, if 0 < timeout opts then timeout opts else m_sendMsgTimeout s)]
        else timers s)"
    by (rule registerResp_timers)
  assume ret: "asyncSendMessage enc thr msg opts (Some f) s = Inr s'"
  have "m_callbacks s' = m_callbacks ?s2 \<and> timers s' = timers ?s2"
  proof (cases "m_queue ?s1 = []")
    case True
    with ret have "asyncWrite thr ?s2 = Inr s'"
      by (simp add: asyncSendMessage_def Let_def)
    then show ?thesis by (rule asyncWrite_callbacks)
  next
    case False
    with ret have "s' = ?s2"
      by (simp add: asyncSendMessage_def Let_def)
    then show ?thesis by simp
  qed
  then show "m_callbacks s' (seq msg) =
          Some \<lparr>respCallBack = f,
                timer = (if 0 < (if 0 < timeout opts then timeout opts else m_sendMsgTimeout s)
                         then Some (if 0 < timeout opts then timeout opts else m_sendMsgTimeout s)
                         else None)\<rparr>"
    and "timers s' =
          (if 0 < (if 0 < timeout opts then timeout opts else m_sendMsgTimeout s)
           then timers s @ [(seq msg, if 0 < timeout opts then timeout opts else m_sendMsgTimeout s)]
           else timers s)"
    by (simp_all add: registerResp_callbacks registerResp_timers)
qed

theorem send_registers_callback_witness:
  "(\<exists>s'. asyncSendMessage sample_encode False msg1 \<lparr>timeout = 5\<rparr> (Some 7) session0 = Inr s'
      \<and> m_callbacks s' ''a'' = Some \<lparr>respCallBack = 7, timer = Some 5\<rparr>
      \<and> timers s' = [(''a'', 5)])
   \<and> (\<exists>s'. asyncSendMessage sample_encode False msg1 \<lparr>timeout = 0\<rparr> (Some 7) session0 = Inr s'
      \<and> m_callbacks s' ''a'' = Some \<lparr>respCallBack = 7, timer = None\<rparr>
      \<and> timers s' = [])"
proof -
  have "\<exists>s'. asyncSendMessage sample_encode False msg1 \<lparr>timeout = 5\<rparr> (Some 7) session0 = Inr s'"
    by (simp add: eval_defs)
  then obtain s' where
    eq: "asyncSendMessage sample_encode False msg1 \<lparr>timeout = 5\<rparr> (Some 7) session0 = Inr s'"
    by blast
  have "\<exists>s'. asyncSendMessage sample_encode False msg1 \<lparr>timeout = 0\<rparr> (Some 7) session0 = Inr s'"
    by (simp add: eval_defs)
  then obtain s'' where
    eq0: "asyncSendMessage sample_encode False msg1 \<lparr>timeout = 0\<rparr> (Some 7) session0 = Inr s''"
    by blast
  from send_registers_callback [of sample_encode False msg1 "\<lparr>timeout = 5\<rparr>" 7 session0 s'] eq
  have "m_callbacks s' ''a'' = Some \<lparr>respCallBack = 7, timer = Some 5\<rparr> \<and> timers s' = [(''a'', 5)]"
    by (simp add: session0_def msg1_def)
  moreover
  from send_registers_callback [of sample_encode False msg1 "\<lparr>timeout = 0\<rparr>" 7 session0 s''] eq0
  have "m_callbacks s'' ''a'' = Some \<lparr>respCallBack = 7, timer = None\<rparr> \<and> timers s'' = []"
    by (simp add: session0_def msg1_def)
  ultimately show ?thesis using eq eq0 by blast
qed

text \<open>
  C7. The tasks of drop (the disconnect notification) and of
  onReadPacket (a received message or a correlated response) do nothing when the weak
  pointer no longer locks. The timeout resolves its weak pointer in the timer's wait
  handler, before onRespTimeout: with the session gone the handler changes nothing. The
  task onRespTimeout enqueues captures the callback and the error only, and calls the
  response handler with the TimeOut error, no message and a null session, whether the
  session still exists or not.
\<close>

theorem deferred_tasks_session_check:
  "(\<exists>ts. pool (drop_ws r s) = pool s @ ts \<and> (\<forall>t\<in>set ts. run_task False t = []))
   \<and> (\<exists>ts. pool (onReadPacket dec s) = pool s @ ts \<and> (\<forall>t\<in>set ts. run_task False t = []))
   \<and> timerHandler False err sq s = s
   \<and> (\<exists>ts. pool (onRespTimeout err sq s) = pool s @ ts
          \<and> (\<forall>t\<in>set ts. \<exists>cb. t = TimeoutTask cb TimeOut \<and> m_callbacks s sq = Some cb
                \<and> (\<forall>alive. run_task alive t
                       = [CallResp (respCallBack cb) (Some TimeOut) None False])))"
proof (intro conjI)
  show "\<exists>ts. pool (drop_ws r s) = pool s @ ts \<and> (\<forall>t\<in>set ts. run_task False t = [])"
    by simp
  show "\<exists>ts. pool (onReadPacket dec s) = pool s @ ts \<and> (\<forall>t\<in>set ts. run_task False t = [])"
    by (cases "dec (m_buffer s)")
       (simp add: onReadPacket_def getAndRemoveRespCallback_def split: option.splits)
  show "timerHandler False err sq s = s"
    by (simp add: timerHandler_def)
  show "\<exists>ts. pool (onRespTimeout err sq s) = pool s @ ts
          \<and> (\<forall>t\<in>set ts. \<exists>cb. t = TimeoutTask cb TimeOut \<and> m_callbacks s sq = Some cb
                \<and> (\<forall>alive. run_task alive t
                       = [CallResp (respCallBack cb) (Some TimeOut) None False]))"
    by (cases err; cases "m_callbacks s sq")
       (simp_all add: onRespTimeout_def getAndRemoveRespCallback_def)
qed

theorem deferred_tasks_session_check_witness:
  "pool (drop_ws ReadError session1) = [DisconnectTask]
   \<and> run_task False DisconnectTask = []
   \<and> pool (onReadPacket sample_decode session1)
       = [ReadTask \<lparr>seq = ''a'', payload = [1]\<rparr> (Some \<lparr>respCallBack = 7, timer = Some 5\<rparr>)]
   \<and> run_task False
        (ReadTask \<lparr>seq = ''a'', payload = [1]\<rparr> (Some \<lparr>respCallBack = 7, timer = Some 5\<rparr>)) = []
   \<and> timerHandler False False ''a'' session1 = session1
   \<and> pool (onRespTimeout False ''a'' session1)
       = [TimeoutTask \<lparr>respCallBack = 7, timer = Some 5\<rparr> TimeOut]
   \<and> run_task True (TimeoutTask \<lparr>respCallBack = 7, timer = Some 5\<rparr> TimeOut)
       = [CallResp 7 (Some TimeOut) None False]"
  using deferred_tasks_session_check [of ReadError session1 sample_decode False "''a''"]
  by (simp add: eval_defs)

text \<open>
  Not every task checks for the session: the task that onRespTimeout enqueues for a
  registered identifier calls the response handler although the session no longer
  exists when it runs.
\<close>

theorem timeout_task_without_session:
  "pool (onRespTimeout False ''a'' session1)
     = [TimeoutTask \<lparr>respCallBack = 7, timer = Some 5\<rparr> TimeOut]
   \<and> run_task False (TimeoutTask \<lparr>respCallBack = 7, timer = Some 5\<rparr> TimeOut)
       = [CallResp 7 (Some TimeOut) None False]
   \<and> \<not> (\<forall>t\<in>set (pool (onRespTimeout False ''a'' session1)). run_task False t = [])"
  by (simp add: eval_defs)

text \<open>
  C8. When a buffer decodes and no callback is registered under the message's sequence
  identifier, the lookup returns nothing and leaves the session, so the registry at
  every key, as it was; onReadPacket consumes the buffer and enqueues one task with no
  callback, without dropping the session; run with the session alive, that task calls
  the generic receive handler with the message.
\<close>

theorem unknown_seq_generic_handler:
  assumes "dec (m_buffer s) = (status, message)" and "0 \<le> status"
    and "m_callbacks s (seq message) = None"
  shows "getAndRemoveRespCallback (seq message) rm s = (None, s)
     \<and> onReadPacket dec s = s\<lparr>m_buffer := [], pool := pool s @ [ReadTask message None]\<rparr>
     \<and> run_task True (ReadTask message None) = [CallRecv message]"
  using assms by (simp add: getAndRemoveRespCallback_def onReadPacket_def)

theorem unknown_seq_generic_handler_witness:
  "getAndRemoveRespCallback ''a'' True (session0\<lparr>m_buffer := [1]\<rparr>)
     = (None, session0\<lparr>m_buffer := [1]\<rparr>)
   \<and> onReadPacket sample_decode (session0\<lparr>m_buffer := [1]\<rparr>)
       = session0\<lparr>m_buffer := [], pool := [ReadTask \<lparr>seq = ''a'', payload = [1]\<rparr> None]\<rparr>
   \<and> run_task True (ReadTask \<lparr>seq = ''a'', payload = [1]\<rparr> None)
       = [CallRecv \<lparr>seq = ''a'', payload = [1]\<rparr>]"
  using unknown_seq_generic_handler [of sample_decode "session0\<lparr>m_buffer := [1]\<rparr>" 0
      "\<lparr>seq = ''a'', payload = [1]\<rparr>" True]
  by (simp add: sample_decode_def session0_def)


text \<open>
  C9. With the transport handle null, ping and pong change nothing: no control frame is
  sent, no fault or exception arises, and drop is not called.
\<close>

theorem ping_pong_null_stream:
  "m_stream s = None \<Longrightarrow> ping thr s = s \<and> pong thr s = s"
  by (simp add: ping_def pong_def)

theorem ping_pong_null_stream_witness:
  "m_stream (disconnect session0) = None
   \<and> ping True (disconnect session0) = disconnect session0
   \<and> pong True (disconnect session0) = disconnect session0"
  using ping_pong_null_stream [of "disconnect session0" True]
  by (simp add: disconnect_def session0_def)

text \<open>
  C10. Called with the error code set, onRespTimeout returns at once: the session, and
  with it the callback registry and the pool, is unchanged.
\<close>

theorem onRespTimeout_error_noop:
  "onRespTimeout True sq s = s"
  by (simp add: onRespTimeout_def)

end
